theory Spec2Isabelle
  imports Main "HOL-Library.Char_ord"
begin

section \<open>Query symbols of the metrics components\<close>

text \<open>
  A shallow embedding of \<^verbatim>\<open>static/app/components/metrics/querySymbol.tsx\<close>.
  The function \<^verbatim>\<open>getQuerySymbol\<close> turns the position of a query into its label
  (a, b, ..., z, aa, ab, ...); the component \<^verbatim>\<open>QuerySymbol\<close> renders that label.

  The argument \<^verbatim>\<open>index\<close> is a JavaScript number, that is a binary64 floating point
  number. The model covers the numbers without a fractional part and writes them as
  integers \<open>int\<close>. The operations \<^verbatim>\<open>%\<close> and \<^verbatim>\<open>>=\<close> are exact on them. The division
  \<^verbatim>\<open>/\<close> and the subtraction \<^verbatim>\<open>-\<close> give the binary64 number nearest to the exact
  result, and are modelled with that rounding: below \<open>2\<^sup>5\<^sup>3\<close> the rounding does not show in
  \<^verbatim>\<open>Math.floor(i / 26) - 1\<close>, above it does. Numbers with a fractional part, NaN and the
  infinities are outside of the model, and so is the bound of the binary64 exponent,
  which a quotient by 26 and a difference with 1 of two numbers do not reach.
\<close>

subsection \<open>The JavaScript operations the source uses\<close>

text \<open>The table of letters: \<^verbatim>\<open>const indexToChar = 'abcdefghijklmnopqrstuvwxyz'\<close>.\<close>

definition indexToChar :: string where
  "indexToChar = ''abcdefghijklmnopqrstuvwxyz''"

text \<open>
  \<^verbatim>\<open>a % b\<close> on integers: the remainder of the division that truncates towards
  zero, so the result has the sign of the dividend (\<^verbatim>\<open>-1 % 26\<close> is \<^verbatim>\<open>-1\<close>); it is
  exact in binary64. For a negative multiple of \<open>b\<close> JavaScript gives the negative zero,
  which selects the same property of a string as \<open>0\<close> does.
\<close>

definition js_rem :: "int \<Rightarrow> int \<Rightarrow> int" where
  "js_rem a b = (if a < 0 then - ((- a) mod \<bar>b\<bar>) else a mod \<bar>b\<bar>)"

text \<open>
  Rounding to binary64. A positive fraction \<open>n / d\<close> is first normalised: \<open>n\<close> or \<open>d\<close> is
  doubled, and the exponent \<open>e\<close> counted down or up, until \<open>2\<^sup>5\<^sup>2 \<le> n / d < 2\<^sup>5\<^sup>3\<close>. The
  significand is then the integer nearest to that fraction, the even one of the two when
  they are equally near (\<open>round_half_even\<close>), and the binary64 number nearest to the
  original fraction is \<open>m * 2\<^sup>e\<close>, kept as the pair \<open>(m, e)\<close>.
\<close>

function normalize :: "int \<Rightarrow> int \<Rightarrow> int \<Rightarrow> int \<times> int \<times> int" where
  "normalize n d e =
     (if n \<le> 0 \<or> d \<le> 0 then (n, d, e)
      else if n < 2 ^ 52 * d then normalize (2 * n) d (e - 1)
      else if 2 ^ 53 * d \<le> n then normalize n (2 * d) (e + 1)
      else (n, d, e))"
  by pat_completeness auto
termination
  by (relation "measure (\<lambda>(n, d, e).
        if n < 2 ^ 52 * d then nat (2 ^ 53 * d - n) else nat (n - 2 ^ 52 * d))") auto

definition round_half_even :: "int \<Rightarrow> int \<Rightarrow> int" where
  "round_half_even n d =
     (let k = n div d; r = n mod d
      in if 2 * r < d then k else if d < 2 * r then k + 1 else if even k then k else k + 1)"

definition round_double :: "int \<Rightarrow> int \<Rightarrow> int \<times> int" where
  "round_double n d = (case normalize n d 0 of (N, D, e) \<Rightarrow> (round_half_even N D, e))"

text \<open>\<^verbatim>\<open>Math.floor\<close> of the number \<open>m * 2\<^sup>e\<close>.\<close>

definition floor_double :: "int \<times> int \<Rightarrow> int" where
  "floor_double x = (case x of (m, e) \<Rightarrow> if 0 \<le> e then m * 2 ^ nat e else m div 2 ^ nat (- e))"

text \<open>
  \<^verbatim>\<open>Math.floor(a / b)\<close> for a number \<open>a\<close> without fractional part and a positive one
  \<open>b\<close>: the quotient is rounded to binary64 (the sign apart, rounding is symmetric), then
  rounded down to an integer.
\<close>

definition js_floor_div :: "int \<Rightarrow> int \<Rightarrow> int" where
  "js_floor_div a b =
     (if a = 0 then 0
      else case round_double \<bar>a\<bar> b of (m, e) \<Rightarrow> floor_double (sgn a * m, e))"

text \<open>
  \<^verbatim>\<open>a - b\<close> for numbers without fractional part: the binary64 number nearest to the
  exact difference. It has no fractional part either, so that \<open>floor_double\<close> only reads
  it as an integer.
\<close>

definition js_minus :: "int \<Rightarrow> int \<Rightarrow> int" where
  "js_minus a b =
     (let x = a - b
      in if x = 0 then 0
         else case round_double \<bar>x\<bar> 1 of (m, e) \<Rightarrow> floor_double (sgn x * m, e))"

text \<open>
  \<^verbatim>\<open>s[k]\<close> for a string \<open>s\<close> and an integer \<open>k\<close>: the character at position \<open>k\<close>, and
  \<^verbatim>\<open>undefined\<close> (here \<open>None\<close>) when \<open>k\<close> is not a position of \<open>s\<close>. Nothing is thrown.
\<close>

definition js_string_index :: "string \<Rightarrow> int \<Rightarrow> char option" where
  "js_string_index s k = (if 0 \<le> k \<and> k < int (length s) then Some (s ! nat k) else None)"

text \<open>
  \<^verbatim>\<open>v + s\<close> where \<open>v\<close> is the value of \<^verbatim>\<open>s[k]\<close> and \<open>s\<close> a string: string concatenation,
  in which \<^verbatim>\<open>undefined\<close> is converted to the text \<^verbatim>\<open>undefined\<close>. Nothing is thrown.
\<close>

definition js_plus :: "char option \<Rightarrow> string \<Rightarrow> string" where
  "js_plus v s = (case v of Some c \<Rightarrow> c # s | None \<Rightarrow> ''undefined'' @ s)"

subsection \<open>Properties of the rounded operations\<close>

lemma round_half_even_bounds:
  assumes "0 < d"
  shows "2 * n - d \<le> 2 * (d * round_half_even n d)" "2 * (d * round_half_even n d) \<le> 2 * n + d"
proof -
  define k r where "k = n div d" and "r = n mod d"
  have n: "n = d * k + r" and r: "0 \<le> r" "r < d"
    using assms by (simp_all add: k_def r_def)
  have cases: "round_half_even n d = k \<and> 2 * r \<le> d \<or> round_half_even n d = k + 1 \<and> d \<le> 2 * r"
    by (auto simp: round_half_even_def Let_def k_def r_def)
  have "d * (k + 1) = d * k + d"
    by (simp add: algebra_simps)
  with cases n r show "2 * n - d \<le> 2 * (d * round_half_even n d)"
    and "2 * (d * round_half_even n d) \<le> 2 * n + d"
    by auto
qed

lemma normalize_shape:
  assumes "0 < n0" "0 < d0"
    and "if 0 \<le> e0 then n0 = n \<and> d0 = d * 2 ^ nat e0 else n0 = n * 2 ^ nat (- e0) \<and> d0 = d"
    and "e0 < 0 \<longrightarrow> n0 < 2 ^ 53 * d0" "0 < e0 \<longrightarrow> 2 ^ 52 * d0 \<le> n0"
    and "normalize n0 d0 e0 = (N, D, e)"
  shows "0 < D \<and> 2 ^ 52 * D \<le> N \<and> N < 2 ^ 53 * D \<and>
    (if 0 \<le> e then N = n \<and> D = d * 2 ^ nat e else N = n * 2 ^ nat (- e) \<and> D = d)"
  using assms
proof (induction n0 d0 e0 rule: normalize.induct)
  case (1 n0 d0 e0)
  show ?case
  proof (cases "n0 < 2 ^ 52 * d0")
    case True
    with "1.prems"(5) have e0: "e0 \<le> 0" by linarith
    have "nat (- (e0 - 1)) = Suc (nat (- e0))"
      using e0 by simp
    with "1.prems"(3) e0 have shape:
      "if 0 \<le> e0 - 1 then 2 * n0 = n \<and> d0 = d * 2 ^ nat (e0 - 1)
       else 2 * n0 = n * 2 ^ nat (- (e0 - 1)) \<and> d0 = d"
      by (cases "e0 = 0") auto
    from True "1.prems"(1,2,6) have "normalize (2 * n0) d0 (e0 - 1) = (N, D, e)"
      by (subst (asm) normalize.simps) simp
    moreover from "1.prems"(1,2) have "\<not> (n0 \<le> 0 \<or> d0 \<le> 0)" by simp
    moreover from "1.prems"(1) have "0 < 2 * n0" by simp
    moreover from True have "e0 - 1 < 0 \<longrightarrow> 2 * n0 < 2 ^ 53 * d0" by simp
    moreover from e0 have "0 < e0 - 1 \<longrightarrow> 2 ^ 52 * d0 \<le> 2 * n0" by simp
    ultimately show ?thesis
      using "1.IH"(1) [OF _ True] "1.prems"(2) shape by blast
  next
    case False
    show ?thesis
    proof (cases "2 ^ 53 * d0 \<le> n0")
      case True
      with "1.prems"(4) have e0: "0 \<le> e0" by linarith
      have "nat (e0 + 1) = Suc (nat e0)"
        using e0 by simp
      with "1.prems"(3) e0 have shape:
        "if 0 \<le> e0 + 1 then n0 = n \<and> 2 * d0 = d * 2 ^ nat (e0 + 1)
         else n0 = n * 2 ^ nat (- (e0 + 1)) \<and> 2 * d0 = d"
        by auto
      from True False "1.prems"(1,2,6) have "normalize n0 (2 * d0) (e0 + 1) = (N, D, e)"
        by (subst (asm) normalize.simps) simp
      moreover from "1.prems"(1,2) have "\<not> (n0 \<le> 0 \<or> d0 \<le> 0)" by simp
      moreover from "1.prems"(2) have "0 < 2 * d0" by simp
      moreover from e0 have "e0 + 1 < 0 \<longrightarrow> n0 < 2 ^ 53 * (2 * d0)" by simp
      moreover from True have "0 < e0 + 1 \<longrightarrow> 2 ^ 52 * (2 * d0) \<le> n0" by simp
      ultimately show ?thesis
        using "1.IH"(2) [OF _ False True] "1.prems"(1) shape by blast
    next
      case True': False
      from False True' "1.prems"(1,2,6) have "(N, D, e) = (n0, d0, e0)"
        by (subst (asm) normalize.simps) simp
      with False True' "1.prems"(2,3) show ?thesis
        by auto
    qed
  qed
qed

lemma normalize_0:
  assumes "0 < n" "0 < d" "normalize n d 0 = (N, D, e)"
  shows "0 < D \<and> 2 ^ 52 * D \<le> N \<and> N < 2 ^ 53 * D \<and>
    (if 0 \<le> e then N = n \<and> D = d * 2 ^ nat e else N = n * 2 ^ nat (- e) \<and> D = d)"
  using assms by (intro normalize_shape [of n d 0 n d]) simp_all


lemma power_2_52_53: "(2::int) ^ 52 = 4503599627370496" "(2::int) ^ 53 = 9007199254740992"
  by simp_all

lemma round_double_up:
  assumes "0 < n" "0 < d" "round_double n d = (m, e)" "0 \<le> e"
  shows "0 < d * 2 ^ nat e" "2 ^ 52 * (d * 2 ^ nat e) \<le> n" "n < 2 ^ 53 * (d * 2 ^ nat e)"
    "2 * n - d * 2 ^ nat e \<le> 2 * (d * 2 ^ nat e * m)"
    "2 * (d * 2 ^ nat e * m) \<le> 2 * n + d * 2 ^ nat e"
proof -
  obtain N D e' where norm: "normalize n d 0 = (N, D, e')"
    by (cases "normalize n d 0") auto
  with assms(3) have m: "m = round_half_even N D" and e: "e' = e"
    by (simp_all add: round_double_def)
  from normalize_0 [OF assms(1,2) norm] assms(4) e
  have D: "0 < D" "2 ^ 52 * D \<le> N" "N < 2 ^ 53 * D" "N = n" "D = d * 2 ^ nat e"
    by simp_all
  from D show "0 < d * 2 ^ nat e" "2 ^ 52 * (d * 2 ^ nat e) \<le> n" "n < 2 ^ 53 * (d * 2 ^ nat e)"
    by simp_all
  from round_half_even_bounds [OF D(1), of N] D(4,5) m
  show "2 * n - d * 2 ^ nat e \<le> 2 * (d * 2 ^ nat e * m)"
    "2 * (d * 2 ^ nat e * m) \<le> 2 * n + d * 2 ^ nat e"
    by simp_all
qed

lemma round_double_down:
  assumes "0 < n" "0 < d" "round_double n d = (m, e)" "e < 0"
  shows "2 ^ 52 * d \<le> n * 2 ^ nat (- e)" "n * 2 ^ nat (- e) < 2 ^ 53 * d"
    "2 * (n * 2 ^ nat (- e)) - d \<le> 2 * (d * m)"
    "2 * (d * m) \<le> 2 * (n * 2 ^ nat (- e)) + d"
proof -
  obtain N D e' where norm: "normalize n d 0 = (N, D, e')"
    by (cases "normalize n d 0") auto
  with assms(3) have m: "m = round_half_even N D" and e: "e' = e"
    by (simp_all add: round_double_def)
  from normalize_0 [OF assms(1,2) norm] assms(4) e
  have D: "0 < D" "2 ^ 52 * D \<le> N" "N < 2 ^ 53 * D" "N = n * 2 ^ nat (- e)" "D = d"
    by simp_all
  from D show "2 ^ 52 * d \<le> n * 2 ^ nat (- e)" "n * 2 ^ nat (- e) < 2 ^ 53 * d"
    by simp_all
  from round_half_even_bounds [OF D(1), of N] D(4,5) m
  show "2 * (n * 2 ^ nat (- e)) - d \<le> 2 * (d * m)"
    "2 * (d * m) \<le> 2 * (n * 2 ^ nat (- e)) + d"
    by simp_all
qed

lemma floor_double_bounds:
  assumes "0 < n" "0 < d" "round_double n d = (m, e)"
  shows "0 \<le> floor_double (m, e)" "2 * (d * floor_double (m, e)) \<le> 3 * n + d"
    "floor_double (- m, e) < 0"
proof -
  have "0 \<le> floor_double (m, e) \<and> 2 * (d * floor_double (m, e)) \<le> 3 * n + d \<and>
    floor_double (- m, e) < 0"
  proof (cases "0 \<le> e")
    case True
    define X where "X = d * 2 ^ nat e"
    note r = round_double_up [OF assms True, folded X_def, unfolded power_2_52_53]
    from r(1,2,4) have "0 < X * m" by linarith
    with r(1) have m: "0 < m" by (metis zero_less_mult_pos)
    have y: "floor_double (m, e) = m * 2 ^ nat e" "floor_double (- m, e) = - (m * 2 ^ nat e)"
      using True by (simp_all add: floor_double_def)
    have "d * (m * 2 ^ nat e) = X * m"
      by (simp add: X_def algebra_simps)
    with r(1,2,5) have "2 * (d * (m * 2 ^ nat e)) \<le> 3 * n + d"
      using assms(2) by linarith
    moreover from m have "0 < m * 2 ^ nat e"
      by simp
    ultimately show ?thesis
      by (simp add: y)
  next
    case False
    then have e: "e < 0" by simp
    define P :: int where "P = 2 ^ nat (- e)"
    have P: "0 < P" "1 \<le> P" by (simp_all add: P_def)
    note r = round_double_down [OF assms e, folded P_def, unfolded power_2_52_53]
    from r(1,3) assms(2) have "0 < d * m" by linarith
    with assms(2) have m: "0 < m" by (metis zero_less_mult_pos)
    have y: "floor_double (m, e) = m div P" "floor_double (- m, e) = (- m) div P"
      using e by (simp_all add: floor_double_def P_def)
    from m P have nonneg: "0 \<le> m div P"
      by (simp add: pos_imp_zdiv_nonneg_iff)
    from m P have neg: "(- m) div P < 0"
      by (simp add: pos_imp_zdiv_neg_iff)
    have "P * (m div P) \<le> m"
      using P(1) mult_div_mod_eq [of P m] pos_mod_sign [of P m] by linarith
    with assms(2) have "d * (P * (m div P)) \<le> d * m"
      by (intro mult_left_mono) simp_all
    moreover have "d \<le> d * P"
      using assms(2) P by simp
    ultimately have "2 * (d * (P * (m div P))) \<le> 2 * (n * P) + d * P"
      using r(4) by linarith
    also have "2 * (n * P) + d * P = P * (2 * n + d)"
      by (simp add: algebra_simps)
    also have "2 * (d * (P * (m div P))) = P * (2 * (d * (m div P)))"
      by (simp add: algebra_simps)
    finally have "2 * (d * (m div P)) \<le> 2 * n + d"
      using P by (simp only: mult_le_cancel_left_pos)
    with assms(1) have "2 * (d * (m div P)) \<le> 3 * n + d"
      by linarith
    with nonneg neg show ?thesis
      by (simp add: y)
  qed
  then show "0 \<le> floor_double (m, e)" "2 * (d * floor_double (m, e)) \<le> 3 * n + d"
    "floor_double (- m, e) < 0"
    by simp_all
qed


lemma floor_double_exact_int:
  assumes "0 < n" "n < 2 ^ 53" "round_double n 1 = (m, e)"
  shows "floor_double (m, e) = n" "floor_double (- m, e) = - n"
proof -
  have "floor_double (m, e) = n \<and> floor_double (- m, e) = - n"
  proof (cases "0 \<le> e")
    case True
    define X :: int where "X = 2 ^ nat e"
    have one: "(1::int) * 2 ^ nat e = X" by (simp add: X_def)
    note r = round_double_up [OF assms(1) zero_less_one assms(3) True, unfolded one power_2_52_53]
    from r(1,2) assms(2) have "X < 2" by simp
    have "e = 0"
    proof (rule ccontr)
      assume "e \<noteq> 0"
      with True have "(2::int) ^ 1 \<le> 2 ^ nat e"
        by (intro power_increasing) simp_all
      with \<open>X < 2\<close> show False by (simp add: X_def)
    qed
    then have X: "X = 1" by (simp add: X_def)
    from r(4,5) have "m = n" unfolding X by simp
    with \<open>e = 0\<close> show ?thesis
      by (simp add: floor_double_def)
  next
    case False
    then have e: "e < 0" by simp
    define P :: int where "P = 2 ^ nat (- e)"
    have P: "0 < P" by (simp add: P_def)
    note r = round_double_down [OF assms(1) zero_less_one assms(3) e, folded P_def]
    from r(3,4) have m: "m = n * P" by simp
    have "floor_double (m, e) = m div P" "floor_double (- m, e) = (- m) div P"
      using e by (simp_all add: floor_double_def P_def)
    moreover have "- (n * P) = (- n) * P" by simp
    ultimately show ?thesis
      using P unfolding m by (simp only: nonzero_mult_div_cancel_right)
  qed
  then show "floor_double (m, e) = n" "floor_double (- m, e) = - n"
    by simp_all
qed

lemma floor_double_exact_div_26:
  assumes "0 < n" "n < 2 ^ 53" "round_double n 26 = (m, e)"
  shows "floor_double (m, e) = n div 26"
proof (cases "0 \<le> e")
  case True
  define X :: int where "X = 26 * 2 ^ nat e"
  have "(1::int) \<le> 2 ^ nat e" by simp
  then have "26 \<le> X" by (simp add: X_def)
  note r = round_double_up [OF assms(1) _ assms(3) True, folded X_def, unfolded power_2_52_53]
  from r(2) \<open>26 \<le> X\<close> assms(2) show ?thesis
    by simp
next
  case False
  then have e: "e < 0" by simp
  define P :: int where "P = 2 ^ nat (- e)"
  have P: "0 < P" by (simp add: P_def)
  note r = round_double_down [OF assms(1) _ assms(3) e, folded P_def, unfolded power_2_52_53]
  define k r' where "k = n div 26" and "r' = n mod 26"
  have n: "n = 26 * k + r'" and r': "0 \<le> r'" "r' \<le> 25"
    by (simp_all add: k_def r'_def)
  from assms(2) P have "n * P < 9007199254740992 * P"
    by simp
  with r(1) have P13: "13 < P" by simp
  have nP: "n * P = 26 * (k * P) + r' * P"
    by (simp add: n algebra_simps)
  from r' P have rP: "0 \<le> r' * P" "r' * P \<le> 25 * P"
    by simp_all
  from r(3,4) nP rP P13 have "k * P \<le> m" "m < k * P + P"
    by linarith+
  then have "m = P * k + (m - k * P)" "0 \<le> m - k * P" "m - k * P < P"
    by (simp_all add: algebra_simps)
  then have "m div P = k"
    by (rule int_div_pos_eq)
  then show ?thesis
    using e by (simp add: floor_double_def P_def k_def)
qed


lemma js_floor_div_neg:
  assumes "a < 0" "0 < b"
  shows "js_floor_div a b < 0"
proof -
  obtain m e where r: "round_double \<bar>a\<bar> b = (m, e)"
    by (cases "round_double \<bar>a\<bar> b") auto
  with assms(1) have "js_floor_div a b = floor_double (- m, e)"
    by (simp add: js_floor_div_def)
  moreover from assms have "floor_double (- m, e) < 0"
    by (intro floor_double_bounds(3) [OF _ _ r]) simp_all
  ultimately show ?thesis by simp
qed

lemma js_floor_div_nonneg:
  assumes "0 \<le> a" "0 < b"
  shows "0 \<le> js_floor_div a b" "2 * (b * js_floor_div a b) \<le> 3 * a + b"
proof -
  have "0 \<le> js_floor_div a b \<and> 2 * (b * js_floor_div a b) \<le> 3 * a + b"
  proof (cases "a = 0")
    case True
    with assms(2) show ?thesis by (simp add: js_floor_div_def)
  next
    case False
    with assms(1) have a: "0 < a" by simp
    obtain m e where r: "round_double \<bar>a\<bar> b = (m, e)"
      by (cases "round_double \<bar>a\<bar> b") auto
    with a have "js_floor_div a b = floor_double (m, e)"
      by (simp add: js_floor_div_def)
    moreover from a have "\<bar>a\<bar> = a" by simp
    ultimately show ?thesis
      using floor_double_bounds(1,2) [OF _ assms(2) r] a by simp
  qed
  then show "0 \<le> js_floor_div a b" "2 * (b * js_floor_div a b) \<le> 3 * a + b"
    by simp_all
qed

lemma js_floor_div_exact:
  assumes "0 \<le> a" "a < 2 ^ 53"
  shows "js_floor_div a 26 = a div 26"
proof (cases "a = 0")
  case True
  then show ?thesis by (simp add: js_floor_div_def)
next
  case False
  with assms(1) have a: "0 < a" by simp
  obtain m e where r: "round_double \<bar>a\<bar> 26 = (m, e)"
    by (cases "round_double \<bar>a\<bar> 26") auto
  with a have "js_floor_div a 26 = floor_double (m, e)"
    by (simp add: js_floor_div_def)
  moreover from a have "\<bar>a\<bar> = a" by simp
  ultimately show ?thesis
    using floor_double_exact_div_26 [OF _ _ r] a assms(2) by simp
qed

lemma js_minus_neg:
  assumes "a < b"
  shows "js_minus a b < 0"
proof -
  obtain m e where r: "round_double \<bar>a - b\<bar> 1 = (m, e)"
    by (cases "round_double \<bar>a - b\<bar> 1") auto
  with assms have "js_minus a b = floor_double (- m, e)"
    by (simp add: js_minus_def Let_def)
  moreover from assms have "floor_double (- m, e) < 0"
    by (intro floor_double_bounds(3) [OF _ _ r]) simp_all
  ultimately show ?thesis by simp
qed

lemma js_minus_pos:
  assumes "b < a"
  shows "2 * js_minus a b \<le> 3 * (a - b) + 1"
proof -
  obtain m e where r: "round_double \<bar>a - b\<bar> 1 = (m, e)"
    by (cases "round_double \<bar>a - b\<bar> 1") auto
  with assms have "js_minus a b = floor_double (m, e)"
    by (simp add: js_minus_def Let_def)
  moreover from assms have "\<bar>a - b\<bar> = a - b" by simp
  ultimately show ?thesis
    using floor_double_bounds(2) [OF _ zero_less_one r] assms by simp
qed

lemma js_minus_exact:
  assumes "\<bar>a - b\<bar> < 2 ^ 53"
  shows "js_minus a b = a - b"
proof -
  obtain m e where r: "round_double \<bar>a - b\<bar> 1 = (m, e)"
    by (cases "round_double \<bar>a - b\<bar> 1") auto
  consider "a - b = 0" | "0 < a - b" | "a - b < 0" by linarith
  then show ?thesis
  proof cases
    case 1
    then show ?thesis by (simp add: js_minus_def)
  next
    case 2
    with r have "js_minus a b = floor_double (m, e)"
      by (simp add: js_minus_def Let_def)
    moreover from 2 have "\<bar>a - b\<bar> = a - b" by simp
    ultimately show ?thesis
      using floor_double_exact_int(1) [OF _ assms r] 2 by simp
  next
    case 3
    with r have "js_minus a b = floor_double (- m, e)"
      by (simp add: js_minus_def Let_def)
    moreover from 3 have "\<bar>a - b\<bar> = - (a - b)" by simp
    ultimately show ?thesis
      using floor_double_exact_int(2) [OF _ assms r] 3 by simp
  qed
qed

lemma js_next_neg:
  "i < 0 \<Longrightarrow> js_minus (js_floor_div i 26) 1 < 0"
  using js_floor_div_neg [of i 26] by (intro js_minus_neg) simp

lemma js_next_le:
  assumes "0 \<le> i"
  shows "js_minus (js_floor_div i 26) 1 \<le> i - 1"
proof -
  define y where "y = js_floor_div i 26"
  from assms have y: "0 \<le> y" "52 * y \<le> 3 * i + 26"
    using js_floor_div_nonneg [of i 26] by (simp_all add: y_def)
  consider "y < 1" | "y = 1" | "1 < y" by linarith
  then have "js_minus y 1 \<le> i - 1"
  proof cases
    case 1
    then have "js_minus y 1 < 0" by (rule js_minus_neg)
    with assms y 1 show ?thesis
      using js_minus_exact [of y 1] by simp
  next
    case 2
    with y(2) show ?thesis by (simp add: js_minus_def)
  next
    case 3
    then have "2 * js_minus y 1 \<le> 3 * (y - 1) + 1" by (rule js_minus_pos)
    then have "104 * js_minus y 1 \<le> 156 * y - 104" by simp
    moreover from y(2) have "156 * y \<le> 9 * i + 78" by simp
    moreover from y(2) 3 have "1 \<le> i" by simp
    ultimately have "104 * js_minus y 1 \<le> 104 * (i - 1)"
      by simp
    then show ?thesis by simp
  qed
  then show ?thesis by (simp add: y_def)
qed

lemma js_next_exact:
  assumes "0 \<le> i" "i < 2 ^ 53"
  shows "js_minus (js_floor_div i 26) 1 = i div 26 - 1"
proof -
  have "js_floor_div i 26 = i div 26"
    using assms by (rule js_floor_div_exact)
  moreover from assms have "\<bar>i div 26 - 1\<bar> < 2 ^ 53"
    by simp
  ultimately show ?thesis
    by (simp add: js_minus_exact)
qed

subsection \<open>getQuerySymbol\<close>

text \<open>
  \<^verbatim>\<open>
  export const getQuerySymbol = (index: number) => {
    let result = '';
    let i = index;
    do {
      result = indexToChar[i % indexToChar.length] + result;
      i = Math.floor(i / indexToChar.length) - 1;
    } while (i >= 0);
    return result;
  };
  \<close>
  The state of the loop is the pair of the two variables \<open>(i, result)\<close>.
  \<open>loop_body\<close> is one execution of the two assignments, \<open>loop_cond\<close> the test
  \<^verbatim>\<open>i >= 0\<close>, and \<open>do_while\<close> the loop: the body first, then the test. The loop ends
  for every state, since a negative \<open>i\<close> stays negative and any other decreases.
\<close>

definition loop_body :: "int \<times> string \<Rightarrow> int \<times> string" where
  "loop_body s =
     (let i = fst s; result = snd s;
          result' = js_plus (js_string_index indexToChar (js_rem i (int (length indexToChar)))) result;
          i' = js_minus (js_floor_div i (int (length indexToChar))) 1
      in (i', result'))"

definition loop_cond :: "int \<times> string \<Rightarrow> bool" where
  "loop_cond s = (fst s \<ge> 0)"

function do_while :: "int \<times> string \<Rightarrow> string" where
  "do_while s = (let s' = loop_body s in if loop_cond s' then do_while s' else snd s')"
  by pat_completeness auto
termination
proof (relation "measure (\<lambda>s. nat (fst s))")
  show "wf (measure (\<lambda>s. nat (fst s)))"
    by simp
next
  fix s s' :: "int \<times> string"
  assume "s' = loop_body s" and "loop_cond s'"
  then have next_i: "fst s' = js_minus (js_floor_div (fst s) 26) 1" "0 \<le> fst s'"
    by (simp_all add: loop_body_def loop_cond_def indexToChar_def Let_def)
  have "0 \<le> fst s"
  proof (rule ccontr)
    assume "\<not> 0 \<le> fst s"
    then have "js_minus (js_floor_div (fst s) 26) 1 < 0"
      by (intro js_next_neg) simp
    with next_i show False by simp
  qed
  then have "js_minus (js_floor_div (fst s) 26) 1 \<le> fst s - 1"
    by (rule js_next_le)
  with next_i show "(s', s) \<in> measure (\<lambda>s. nat (fst s))"
    by simp
qed

definition getQuerySymbol :: "int \<Rightarrow> string" where
  "getQuerySymbol index = do_while (index, '''')"

text \<open>
  The executions of the body, one by one: \<open>state_after index k\<close> is the state of the
  two variables after \<open>k\<close> executions of the body in the call \<^verbatim>\<open>getQuerySymbol(index)\<close>,
  and \<open>body_runs index k\<close> says that the loop executes the body on that state, which is
  its execution number \<open>k + 1\<close>: the first execution is unconditional, and each later
  one needs the test \<^verbatim>\<open>i >= 0\<close> to hold after the execution before it.
\<close>

definition state_after :: "int \<Rightarrow> nat \<Rightarrow> int \<times> string" where
  "state_after index k = (loop_body ^^ k) (index, [])"

fun body_runs :: "int \<Rightarrow> nat \<Rightarrow> bool" where
  "body_runs index 0 = True"
| "body_runs index (Suc k) = (body_runs index k \<and> loop_cond (state_after index (Suc k)))"

subsection \<open>The component QuerySymbol\<close>

text \<open>
  \<^verbatim>\<open>
  function QuerySymbol({queryId, ...props}, ref) {
    const organization = useOrganization();
    if (queryId < 0) {
      return null;
    }
    const Component = hasMetricsNewInputs(organization) ? Symbol : DeprecatedSymbol;
    return (
      <Component ref={ref} {...props}>
        <span>{getQuerySymbol(queryId)}</span>
      </Component>
    );
  }
  \<close>
  The two styled components are the two values of \<open>component\<close>. What is rendered is
  either nothing (\<^verbatim>\<open>null\<close>, here \<open>None\<close>) or one element: the chosen component, the
  reference and the remaining properties handed through, and the text of the inner
  \<^verbatim>\<open>span\<close>. The organization (the value of the hook \<^verbatim>\<open>useOrganization\<close>) and the
  function \<^verbatim>\<open>hasMetricsNewInputs\<close> are defined outside of this file and are parameters
  of the model.
\<close>

datatype component = Symbol | DeprecatedSymbol

datatype ('r, 'p) element =
  Element (el_component: component) (el_ref: 'r) (el_props: 'p) (el_span: string)

definition QuerySymbol ::
  "('o \<Rightarrow> bool) \<Rightarrow> 'o \<Rightarrow> int \<Rightarrow> 'p \<Rightarrow> 'r \<Rightarrow> ('r, 'p) element option" where
  "QuerySymbol hasMetricsNewInputs organization queryId props ref =
     (if queryId < 0 then None
      else let Component = (if hasMetricsNewInputs organization then Symbol else DeprecatedSymbol)
           in Some (Element Component ref props (getQuerySymbol queryId)))"

subsection \<open>The description of the labels in the specification\<close>

text \<open>
  The definitions of this subsection follow the words of the specification, to be
  compared with the functions above. The letter for a digit is \<^verbatim>\<open>'a' + digit\<close>.
\<close>

definition letter :: "int \<Rightarrow> char" where
  "letter digit = char_of (of_char CHR ''a'' + digit)"

text \<open>
  The reference algorithm: with the working value \<open>i\<close> and the accumulator, prepend the
  letter of \<open>i mod 26\<close>, set \<open>i\<close> to \<open>floor (i / 26) - 1\<close>, and continue while \<open>i \<ge> 0\<close>;
  the body is executed at least once.
\<close>

function generateLabel_loop :: "int \<Rightarrow> string \<Rightarrow> string" where
  "generateLabel_loop i acc =
     (let digit = i mod 26;
          acc' = letter digit # acc;
          i' = i div 26 - 1
      in if i' \<ge> 0 then generateLabel_loop i' acc' else acc')"
  by pat_completeness auto
termination
  by (relation "measure (\<lambda>(i, acc). nat i)") auto

definition generateLabel :: "int \<Rightarrow> string" where
  "generateLabel index = generateLabel_loop index ''''"

text \<open>A label: a non-empty string of lowercase Latin letters \<open>a\<close> to \<open>z\<close>.\<close>

definition is_label :: "string \<Rightarrow> bool" where
  "is_label s = (s \<noteq> [] \<and> list_all (\<lambda>c. CHR ''a'' \<le> c \<and> c \<le> CHR ''z'') s)"

text \<open>
  The order in which spreadsheet columns are named (a, b, ..., z, aa, ab, ..., az, ba,
  ...): shorter names first, names of the same length in alphabetical order.
\<close>

definition column_less :: "string \<Rightarrow> string \<Rightarrow> bool" where
  "column_less s t = (length s < length t \<or> (length s = length t \<and> ord_class.lexordp s t))"

text \<open>The thresholds \<open>26\<close>, \<open>26 + 26 * 26 = 702\<close>, ...: the sums \<open>26 + 26\<^sup>2 + ... + 26\<^sup>k\<close>.\<close>

definition threshold :: "nat \<Rightarrow> int" where
  "threshold k = (\<Sum>j = 1..k. 26 ^ j)"

section \<open>Properties\<close>

subsection \<open>The letters of the table and the loop\<close>

lemma length_indexToChar: "length indexToChar = 26"
  by (simp add: indexToChar_def)

lemma map_letter_upto: "map letter [0..25] = indexToChar"
  by code_simp

lemma indexToChar_nth: "0 \<le> d \<Longrightarrow> d < 26 \<Longrightarrow> indexToChar ! nat d = letter d"
proof -
  assume "0 \<le> d" "d < 26"
  then have "map letter [0..25] ! nat d = letter ([0..25] ! nat d)"
    by (intro nth_map) simp
  also have "[0..25] ! nat d = d"
    using \<open>0 \<le> d\<close> \<open>d < 26\<close> by (simp add: nth_upto)
  finally show ?thesis by (simp add: map_letter_upto)
qed

lemma of_char_letter:
  assumes "0 \<le> d" "d < 26" shows "(of_char (letter d) :: nat) = 97 + nat d"
proof -
  have "(of_char (letter d) :: int) = (97 + d) mod 256"
    by (simp add: letter_def)
  also have "\<dots> = 97 + d"
    using assms by simp
  finally have "int (of_char (letter d)) = 97 + d"
    by (simp add: of_nat_of_char)
  then show ?thesis using assms by linarith
qed

lemma letter_range: "0 \<le> d \<Longrightarrow> d < 26 \<Longrightarrow> CHR ''a'' \<le> letter d \<and> letter d \<le> CHR ''z''"
  by (simp add: less_eq_char_def of_char_letter)

lemma letter_mono: "0 \<le> d \<Longrightarrow> d < e \<Longrightarrow> e < 26 \<Longrightarrow> letter d < letter e"
  by (simp add: less_char_def of_char_letter)

lemma loop_body_eq:
  "loop_body (i, r) =
     (js_minus (js_floor_div i 26) 1, js_plus (js_string_index indexToChar (js_rem i 26)) r)"
  by (simp add: loop_body_def length_indexToChar)

lemma fst_loop_body: "fst (loop_body s) = js_minus (js_floor_div (fst s) 26) 1"
  by (cases s) (simp add: loop_body_eq)

lemma lookup_nonneg:
  "0 \<le> i \<Longrightarrow> js_string_index indexToChar (js_rem i 26) = Some (letter (i mod 26))"
  by (simp add: js_string_index_def js_rem_def length_indexToChar indexToChar_nth)

lemma js_plus_append: "js_plus v (r @ acc) = js_plus v r @ acc"
  by (simp add: js_plus_def split: option.split)

lemma do_while_acc: "do_while (i, r @ acc) = do_while (i, r) @ acc"
proof (induction "(i, r)" arbitrary: i r rule: do_while.induct)
  case 1
  show ?case
    apply (subst do_while.simps)
    apply (subst (2) do_while.simps)
    using 1
    apply (simp add: loop_body_eq loop_cond_def js_plus_append Let_def)
    done
qed

text \<open>One execution of the body for an index that is not negative.\<close>

lemma getQuerySymbol_unfold:
  assumes "0 \<le> n"
  shows "getQuerySymbol n =
    (if 0 \<le> js_minus (js_floor_div n 26) 1
     then getQuerySymbol (js_minus (js_floor_div n 26) 1) @ [letter (n mod 26)]
     else [letter (n mod 26)])"
proof (cases "0 \<le> js_minus (js_floor_div n 26) 1")
  case True
  then have "getQuerySymbol n = do_while (js_minus (js_floor_div n 26) 1, [] @ [letter (n mod 26)])"
    unfolding getQuerySymbol_def
    apply (subst do_while.simps)
    using assms
    apply (simp add: loop_body_eq loop_cond_def lookup_nonneg js_plus_def Let_def)
    done
  with True show ?thesis
    by (simp only: do_while_acc getQuerySymbol_def if_True)
next
  case False
  then show ?thesis
    unfolding getQuerySymbol_def
    apply (subst do_while.simps)
    using assms
    apply (simp add: loop_body_eq loop_cond_def lookup_nonneg js_plus_def Let_def)
    done
qed

lemma getQuerySymbol_small:
  assumes "0 \<le> n" "n < 26" shows "getQuerySymbol n = [letter n]"
proof -
  from assms have "js_minus (js_floor_div n 26) 1 = n div 26 - 1"
    by (intro js_next_exact) simp_all
  with assms show ?thesis
    by (simp add: getQuerySymbol_unfold)
qed

lemma getQuerySymbol_step:
  assumes "26 \<le> n" "n < 2 ^ 53"
  shows "getQuerySymbol n = getQuerySymbol (n div 26 - 1) @ [letter (n mod 26)]"
proof -
  from assms have "js_minus (js_floor_div n 26) 1 = n div 26 - 1"
    by (intro js_next_exact) simp_all
  moreover from assms(1) have "0 \<le> n div 26 - 1" by linarith
  ultimately show ?thesis
    using assms(1) by (simp add: getQuerySymbol_unfold)
qed

text \<open>Induction over the indices along the digits of bijective base 26.\<close>

lemma index_induct [consumes 1, case_names small step]:
  assumes "0 \<le> n"
    and "\<And>n. 0 \<le> n \<Longrightarrow> n < 26 \<Longrightarrow> P n"
    and "\<And>n. 26 \<le> n \<Longrightarrow> P (n div 26 - 1) \<Longrightarrow> P n"
  shows "P (n::int)"
  using assms(1)
proof (induction "nat n" arbitrary: n rule: less_induct)
  case less
  show ?case
  proof (cases "n < 26")
    case True
    with less.prems show ?thesis by (rule assms(2))
  next
    case False
    then have "26 \<le> n" by simp
    then have "0 \<le> n div 26 - 1" "nat (n div 26 - 1) < nat n" by linarith+
    then have "P (n div 26 - 1)" using less.hyps by blast
    with \<open>26 \<le> n\<close> show ?thesis by (rule assms(3))
  qed
qed

lemma div_mod_26_digit:
  fixes n d :: int
  assumes "0 \<le> d" "d \<le> 25"
  shows "(26 * (n + 1) + d) div 26 - 1 = n" "(26 * (n + 1) + d) mod 26 = d"
proof -
  have "(26 * (n + 1) + d) div 26 = (n + 1) + d div 26"
    by (rule div_mult_self4) simp
  moreover have "d div 26 = 0"
    using assms by (simp add: div_pos_pos_trivial)
  ultimately show "(26 * (n + 1) + d) div 26 - 1 = n"
    by simp
  have "(26 * (n + 1) + d) mod 26 = d mod 26"
    by (rule mod_mult_self4)
  then show "(26 * (n + 1) + d) mod 26 = d"
    using assms by (simp add: mod_pos_pos_trivial)
qed

subsection \<open>The reference algorithm\<close>

lemma generateLabel_loop_acc:
  "generateLabel_loop i (r @ acc) = generateLabel_loop i r @ acc"
proof (induction i r rule: generateLabel_loop.induct)
  case (1 i r)
  show ?case
    apply (subst generateLabel_loop.simps)
    apply (subst (2) generateLabel_loop.simps)
    using 1
    apply (simp add: Let_def)
    done
qed

lemma generateLabel_small: "n < 26 \<Longrightarrow> generateLabel n = [letter (n mod 26)]"
  unfolding generateLabel_def
  by (subst generateLabel_loop.simps) (simp add: Let_def)

lemma generateLabel_step:
  assumes "26 \<le> n"
  shows "generateLabel n = generateLabel (n div 26 - 1) @ [letter (n mod 26)]"
proof -
  have "generateLabel n = generateLabel_loop (n div 26 - 1) ([] @ [letter (n mod 26)])"
    unfolding generateLabel_def
    using assms by (subst generateLabel_loop.simps) (simp add: Let_def)
  then show ?thesis
    by (simp only: generateLabel_loop_acc generateLabel_def)
qed

lemma getQuerySymbol_exact:
  "0 \<le> n \<Longrightarrow> n < 2 ^ 53 \<Longrightarrow> getQuerySymbol n = generateLabel n"
proof (induction n rule: index_induct)
  case (small n)
  then show ?case
    by (simp add: getQuerySymbol_small generateLabel_small)
next
  case (step n)
  from step.prems step.hyps have "n div 26 - 1 < 2 ^ 53"
    by simp
  with step show ?case
    by (simp add: getQuerySymbol_step generateLabel_step)
qed

text \<open>
  Claim C1 says that for every integer \<open>index \<ge> 0\<close> the string \<^verbatim>\<open>getQuerySymbol(index)\<close> is
  the one that the reference algorithm of the specification produces. The number
  \<open>29273397577908248 = 26 * 2\<^sup>5\<^sup>0 + 24\<close> is a binary64 number (rounding it to binary64 gives
  the number itself). For it \<^verbatim>\<open>Math.floor(i / 26)\<close> is \<open>2\<^sup>5\<^sup>0 + 1\<close>, where the reference
  algorithm has \<open>2\<^sup>5\<^sup>0\<close>, and the two strings differ.
\<close>

theorem getQuerySymbol_reference_large:
  "(0::int) \<le> 29273397577908248 \<and> js_minus 29273397577908248 0 = 29273397577908248 \<and>
   js_floor_div 29273397577908248 26 = 2 ^ 50 + 1 \<and> 29273397577908248 div 26 = (2::int) ^ 50 \<and>
   getQuerySymbol 29273397577908248 = ''gyinbkqdgxey'' \<and>
   generateLabel 29273397577908248 = ''gyinbkqdgxdy'' \<and>
   getQuerySymbol 29273397577908248 \<noteq> generateLabel 29273397577908248"
  by code_simp

text \<open>
  Claim C1, as amended. For every integer \<open>index\<close> with \<open>0 \<le> index < 2\<^sup>5\<^sup>3\<close>,
  \<^verbatim>\<open>getQuerySymbol(index)\<close> is the string that the reference algorithm of the
  specification produces: start with \<open>i = index\<close> and the empty accumulator, prepend the
  letter \<^verbatim>\<open>'a' + (i mod 26)\<close>, set \<open>i\<close> to \<open>floor (i / 26) - 1\<close>, execute this at least once
  and continue while \<open>i \<ge> 0\<close>.
\<close>

theorem getQuerySymbol_reference:
  "0 \<le> index \<Longrightarrow> index < 2 ^ 53 \<Longrightarrow> getQuerySymbol index = generateLabel index"
  by (rule getQuerySymbol_exact)

theorem getQuerySymbol_reference_witness:
  "(0::int) \<le> 18277 \<and> (18277::int) < 2 ^ 53 \<and> getQuerySymbol 18277 = generateLabel 18277 \<and>
   generateLabel 18277 = ''zzz''"
proof -
  have "generateLabel 18277 = ''zzz''" by code_simp
  then show ?thesis
    using getQuerySymbol_reference [of 18277] by simp
qed

subsection \<open>Values and recurrence\<close>

text \<open>
  Claim C3. The literal cases of the specification: the indices 0, 1, 25, 26, 27, 51, 52,
  701 and 702 give the labels a, b, z, aa, ab, az, ba, zz and aaa.
\<close>

theorem getQuerySymbol_examples:
  "getQuerySymbol 0 = ''a'' \<and> getQuerySymbol 1 = ''b'' \<and> getQuerySymbol 25 = ''z'' \<and>
   getQuerySymbol 26 = ''aa'' \<and> getQuerySymbol 27 = ''ab'' \<and> getQuerySymbol 51 = ''az'' \<and>
   getQuerySymbol 52 = ''ba'' \<and> getQuerySymbol 701 = ''zz'' \<and> getQuerySymbol 702 = ''aaa''"
  by code_simp

text \<open>
  Claim C9 says that for every \<open>n \<ge> 0\<close> and every digit \<open>d\<close> from 0 to 25 the label of
  \<open>26 * (n + 1) + d\<close> is the label of \<open>n\<close> followed by the letter \<^verbatim>\<open>'a' + d\<close>. For
  \<open>n = 2\<^sup>5\<^sup>0 - 1\<close> and \<open>d = 24\<close> the argument is the binary64 number \<open>29273397577908248\<close>,
  whose label ends in \<open>ey\<close>, while the label of \<open>n\<close> followed by \<open>y\<close> ends in \<open>dy\<close>.
\<close>

theorem getQuerySymbol_recurrence_large:
  "(0::int) \<le> 1125899906842623 \<and> (0::int) \<le> 24 \<and> (24::int) \<le> 25 \<and>
   26 * (1125899906842623 + 1) + 24 = (29273397577908248::int) \<and>
   js_minus 29273397577908248 0 = 29273397577908248 \<and>
   getQuerySymbol (26 * (1125899906842623 + 1) + 24) = ''gyinbkqdgxey'' \<and>
   getQuerySymbol 1125899906842623 @ [letter 24] = ''gyinbkqdgxdy'' \<and>
   getQuerySymbol (26 * (1125899906842623 + 1) + 24) \<noteq>
     getQuerySymbol 1125899906842623 @ [letter 24]"
  by code_simp

text \<open>
  Claim C9, as amended. The recurrence of bijective base 26 below \<open>2\<^sup>5\<^sup>3\<close>: for a digit \<open>d\<close>
  from 0 to 25 the label of \<open>d\<close> is the single letter \<^verbatim>\<open>'a' + d\<close>, and for \<open>n \<ge> 0\<close> with
  \<open>26 * (n + 1) + d < 2\<^sup>5\<^sup>3\<close> the label of \<open>26 * (n + 1) + d\<close> is the label of \<open>n\<close> followed by
  that letter.
\<close>

theorem getQuerySymbol_recurrence:
  "(0 \<le> d \<and> d \<le> 25 \<longrightarrow> getQuerySymbol d = [letter d]) \<and>
   (0 \<le> n \<and> 0 \<le> d \<and> d \<le> 25 \<and> 26 * (n + 1) + d < 2 ^ 53 \<longrightarrow>
      getQuerySymbol (26 * (n + 1) + d) = getQuerySymbol n @ [letter d])"
proof (intro conjI impI)
  assume "0 \<le> d \<and> d \<le> 25"
  then show "getQuerySymbol d = [letter d]"
    by (simp add: getQuerySymbol_small)
next
  assume a: "0 \<le> n \<and> 0 \<le> d \<and> d \<le> 25 \<and> 26 * (n + 1) + d < 2 ^ 53"
  let ?m = "26 * (n + 1) + d"
  from a have "26 \<le> ?m" by simp
  moreover from a have "?m < 2 ^ 53" by simp
  moreover from a have "?m div 26 - 1 = n" by (simp only: div_mod_26_digit)
  moreover from a have "?m mod 26 = d" by (simp only: div_mod_26_digit)
  ultimately show "getQuerySymbol ?m = getQuerySymbol n @ [letter d]"
    using getQuerySymbol_step [of ?m] by simp
qed

theorem getQuerySymbol_recurrence_witness:
  "(0::int) \<le> 3 \<and> (3::int) \<le> 25 \<and> (0::int) \<le> 27 \<and> 26 * (27 + 1) + 3 < (2::int) ^ 53 \<and>
   getQuerySymbol 3 = ''d'' \<and> getQuerySymbol (26 * (27 + 1) + 3) = ''abd''"
proof -
  have "getQuerySymbol 27 = ''ab''" by code_simp
  moreover have "letter 3 = CHR ''d''" by code_simp
  ultimately show ?thesis
    using getQuerySymbol_recurrence [of 3 27] by simp
qed

subsection \<open>The executions of the loop body\<close>

lemma state_after_0: "state_after index 0 = (index, [])"
  by (simp add: state_after_def)

lemma state_after_Suc: "state_after index (Suc k) = loop_body (state_after index k)"
  by (simp add: state_after_def)

lemma do_while_iterates:
  "\<exists>n\<ge>1. do_while s = snd ((loop_body ^^ n) s) \<and> \<not> loop_cond ((loop_body ^^ n) s) \<and>
     (\<forall>j. 1 \<le> j \<and> j < n \<longrightarrow> loop_cond ((loop_body ^^ j) s))"
proof (induction s rule: do_while.induct)
  case (1 s)
  show ?case
  proof (cases "loop_cond (loop_body s)")
    case False
    then have "do_while s = snd ((loop_body ^^ 1) s)"
      by (subst do_while.simps) (simp add: Let_def)
    moreover from False have "\<not> loop_cond ((loop_body ^^ 1) s)"
      by simp
    ultimately show ?thesis
      by (intro exI [of _ 1]) simp
  next
    case True
    with 1 obtain n where n: "1 \<le> n"
      "do_while (loop_body s) = snd ((loop_body ^^ n) (loop_body s))"
      "\<not> loop_cond ((loop_body ^^ n) (loop_body s))"
      "\<forall>j. 1 \<le> j \<and> j < n \<longrightarrow> loop_cond ((loop_body ^^ j) (loop_body s))"
      by blast
    have shift: "(loop_body ^^ Suc j) s = (loop_body ^^ j) (loop_body s)" for j
      by (simp add: funpow_swap1)
    from True have "do_while s = do_while (loop_body s)"
      by (subst do_while.simps) (simp add: Let_def)
    with n(2) have "do_while s = snd ((loop_body ^^ Suc n) s)"
      by (subst shift) simp
    moreover have "\<not> loop_cond ((loop_body ^^ Suc n) s)"
      by (subst shift) (rule n(3))
    moreover have "loop_cond ((loop_body ^^ j) s)" if "1 \<le> j \<and> j < Suc n" for j
    proof -
      from that obtain j' where j: "j = Suc j'" "j' < n"
        by (cases j) auto
      have "loop_cond ((loop_body ^^ j') (loop_body s))"
      proof (cases "j' = 0")
        case True
        with \<open>loop_cond (loop_body s)\<close> show ?thesis by simp
      next
        case False
        with j have "1 \<le> j' \<and> j' < n" by simp
        with n(4) show ?thesis by blast
      qed
      then show ?thesis
        unfolding j(1) by (subst shift)
    qed
    ultimately show ?thesis
      by (intro exI [of _ "Suc n"]) simp
  qed
qed

lemma body_runs_iff:
  "body_runs index k \<longleftrightarrow> (\<forall>j. 1 \<le> j \<and> j \<le> k \<longrightarrow> loop_cond (state_after index j))"
proof (induction k)
  case 0
  show ?case by simp
next
  case (Suc k)
  show ?case
    by (auto simp: Suc le_Suc_eq)
qed

lemma body_runs_nonneg:
  "0 \<le> index \<Longrightarrow> body_runs index k \<Longrightarrow> 0 \<le> fst (state_after index k)"
  by (cases k) (simp_all add: state_after_0 loop_cond_def)

lemma body_runs_bound:
  "0 \<le> index \<Longrightarrow> body_runs index k \<Longrightarrow> fst (state_after index k) \<le> index - int k"
proof (induction k)
  case 0
  show ?case by (simp add: state_after_0)
next
  case (Suc k)
  then have "fst (state_after index k) \<le> index - int k" "0 \<le> fst (state_after index k)"
    by (simp_all add: body_runs_nonneg)
  moreover from this(2) have "fst (state_after index (Suc k)) \<le> fst (state_after index k) - 1"
    unfolding state_after_Suc fst_loop_body by (rule js_next_le)
  ultimately show ?case
    by simp
qed

lemma getQuerySymbol_iterations:
  "\<exists>n\<ge>1. body_runs index (n - 1) \<and> \<not> body_runs index n \<and>
     getQuerySymbol index = snd (state_after index n)"
proof -
  obtain n where n: "1 \<le> n" "do_while (index, []) = snd ((loop_body ^^ n) (index, []))"
    "\<not> loop_cond ((loop_body ^^ n) (index, []))"
    "\<forall>j. 1 \<le> j \<and> j < n \<longrightarrow> loop_cond ((loop_body ^^ j) (index, []))"
    using do_while_iterates [of "(index, [])"] by blast
  from n(1,4) have "body_runs index (n - 1)"
    by (auto simp: body_runs_iff state_after_def)
  moreover from n(1,3) have "\<not> body_runs index n"
    by (auto simp: body_runs_iff state_after_def)
  moreover from n(2) have "getQuerySymbol index = snd (state_after index n)"
    by (simp add: getQuerySymbol_def state_after_def)
  ultimately show ?thesis using n(1) by blast
qed

text \<open>
  Claim C8. For every \<open>index \<ge> 0\<close> the loop ends after finitely many executions of its
  body, because the working value \<open>i\<close> strictly decreases: whenever the body is executed,
  \<open>i\<close> is not negative and its next value, \<^verbatim>\<open>Math.floor(i / 26) - 1\<close> as the source
  computes it (which is \<open>floor (i / 26) - 1\<close> when \<open>i < 2\<^sup>5\<^sup>3\<close>), is at most \<open>i - 1\<close>, so
  below \<open>i\<close>. There is a number \<open>n \<ge> 1\<close> of executions, at most \<open>index + 1\<close>, after which the
  test fails, and the function returns the result held then.
\<close>

theorem getQuerySymbol_terminates:
  "0 \<le> index \<Longrightarrow>
     (\<forall>k. body_runs index k \<longrightarrow>
        0 \<le> fst (state_after index k) \<and>
        fst (state_after index (Suc k)) =
          js_minus (js_floor_div (fst (state_after index k)) (int (length indexToChar))) 1 \<and>
        (fst (state_after index k) < 2 ^ 53 \<longrightarrow>
           fst (state_after index (Suc k)) = fst (state_after index k) div 26 - 1) \<and>
        fst (state_after index (Suc k)) \<le> fst (state_after index k) - 1 \<and>
        fst (state_after index (Suc k)) < fst (state_after index k)) \<and>
     (\<exists>n\<ge>1. n \<le> nat index + 1 \<and> body_runs index (n - 1) \<and> \<not> body_runs index n \<and>
        getQuerySymbol index = snd (state_after index n))"
proof (intro conjI allI impI)
  fix k
  assume "0 \<le> index" "body_runs index k"
  then show nonneg: "0 \<le> fst (state_after index k)"
    by (rule body_runs_nonneg)
  show next_i: "fst (state_after index (Suc k)) =
      js_minus (js_floor_div (fst (state_after index k)) (int (length indexToChar))) 1"
    by (simp add: state_after_Suc fst_loop_body length_indexToChar)
  from nonneg show le: "fst (state_after index (Suc k)) \<le> fst (state_after index k) - 1"
    unfolding state_after_Suc fst_loop_body by (rule js_next_le)
  then show "fst (state_after index (Suc k)) < fst (state_after index k)"
    by linarith
  assume "fst (state_after index k) < 2 ^ 53"
  with nonneg show "fst (state_after index (Suc k)) = fst (state_after index k) div 26 - 1"
    unfolding state_after_Suc fst_loop_body by (rule js_next_exact)
next
  assume index: "0 \<le> index"
  obtain n where n: "1 \<le> n" "body_runs index (n - 1)" "\<not> body_runs index n"
    "getQuerySymbol index = snd (state_after index n)"
    using getQuerySymbol_iterations [of index] by blast
  from index n(2) have "0 \<le> fst (state_after index (n - 1))"
    "fst (state_after index (n - 1)) \<le> index - int (n - 1)"
    by (simp_all add: body_runs_nonneg body_runs_bound)
  with n(1) have "n \<le> nat index + 1"
    by linarith
  with n show "\<exists>n\<ge>1. n \<le> nat index + 1 \<and> body_runs index (n - 1) \<and> \<not> body_runs index n \<and>
        getQuerySymbol index = snd (state_after index n)"
    by blast
qed

theorem getQuerySymbol_terminates_witness:
  "(0::int) \<le> 26 \<and> fst (state_after 26 1) < fst (state_after 26 0) \<and>
   (\<exists>n\<ge>1. n \<le> 27 \<and> body_runs 26 (n - 1) \<and> \<not> body_runs 26 n \<and>
      getQuerySymbol 26 = snd (state_after 26 n))"
proof -
  have "(0::int) \<le> 26" and "body_runs 26 0" and "nat 26 + 1 = 27"
    by simp_all
  with getQuerySymbol_terminates [of 26] show ?thesis
    by (metis One_nat_def)
qed

subsection \<open>The characters of a label\<close>

lemma is_label_letter: "0 \<le> d \<Longrightarrow> d < 26 \<Longrightarrow> is_label [letter d]"
  by (simp add: is_label_def letter_range)

lemma is_label_snoc: "is_label s \<Longrightarrow> 0 \<le> d \<Longrightarrow> d < 26 \<Longrightarrow> is_label (s @ [letter d])"
  by (simp add: is_label_def letter_range)

lemma getQuerySymbol_label: "0 \<le> n \<Longrightarrow> is_label (getQuerySymbol n)"
proof (induction "nat n" arbitrary: n rule: less_induct)
  case less
  let ?n' = "js_minus (js_floor_div n 26) 1"
  show ?case
  proof (cases "0 \<le> ?n'")
    case True
    from less.prems have "?n' \<le> n - 1" by (rule js_next_le)
    with True have "nat ?n' < nat n" by linarith
    then have "is_label (getQuerySymbol ?n')"
      using True by (rule less.hyps)
    with True less.prems show ?thesis
      by (simp add: getQuerySymbol_unfold is_label_snoc)
  next
    case False
    with less.prems show ?thesis
      by (simp add: getQuerySymbol_unfold is_label_letter)
  qed
qed

lemma letter_in_table: "0 \<le> d \<Longrightarrow> d < 26 \<Longrightarrow> letter d \<in> set indexToChar"
  by (metis indexToChar_nth length_indexToChar nth_mem nat_less_iff of_nat_numeral)

text \<open>
  Claim C4. For every integer \<open>n \<ge> 0\<close> the string \<^verbatim>\<open>getQuerySymbol(n)\<close> is not empty and
  each of its characters is a lowercase Latin letter from \<open>a\<close> to \<open>z\<close>. The lookup
  \<^verbatim>\<open>indexToChar[i % 26]\<close> is in bounds at every execution of the body: it gives a letter of
  the table, and the body prepends exactly this one letter to the result, so that nothing
  of \<^verbatim>\<open>undefined\<close> enters the result.
\<close>

theorem getQuerySymbol_letters:
  "0 \<le> n \<Longrightarrow>
     getQuerySymbol n \<noteq> [] \<and>
     (\<forall>c\<in>set (getQuerySymbol n). CHR ''a'' \<le> c \<and> c \<le> CHR ''z'') \<and>
     (\<forall>k. body_runs n k \<longrightarrow>
        (\<exists>c\<in>set indexToChar.
           js_string_index indexToChar (js_rem (fst (state_after n k)) (int (length indexToChar))) = Some c \<and>
           snd (state_after n (Suc k)) = c # snd (state_after n k)))"
proof (intro conjI allI impI)
  assume n: "0 \<le> n"
  then have "is_label (getQuerySymbol n)"
    by (rule getQuerySymbol_label)
  then show "getQuerySymbol n \<noteq> []"
    and "\<forall>c\<in>set (getQuerySymbol n). CHR ''a'' \<le> c \<and> c \<le> CHR ''z''"
    by (simp_all add: is_label_def list_all_iff)
  fix k
  assume "body_runs n k"
  with n have i: "0 \<le> fst (state_after n k)"
    by (rule body_runs_nonneg)
  let ?c = "letter (fst (state_after n k) mod 26)"
  have "?c \<in> set indexToChar"
    by (simp add: letter_in_table)
  moreover from i
  have look: "js_string_index indexToChar (js_rem (fst (state_after n k)) (int (length indexToChar))) = Some ?c"
    by (simp add: lookup_nonneg length_indexToChar)
  moreover have "snd (state_after n (Suc k)) = ?c # snd (state_after n k)"
    using look by (cases "state_after n k")
      (simp add: state_after_Suc loop_body_eq length_indexToChar js_plus_def)
  ultimately show "\<exists>c\<in>set indexToChar.
           js_string_index indexToChar (js_rem (fst (state_after n k)) (int (length indexToChar))) = Some c \<and>
           snd (state_after n (Suc k)) = c # snd (state_after n k)"
    by blast
qed

theorem getQuerySymbol_letters_witness:
  "(0::int) \<le> 701 \<and> getQuerySymbol 701 \<noteq> [] \<and>
   CHR ''a'' \<le> hd (getQuerySymbol 701) \<and> hd (getQuerySymbol 701) \<le> CHR ''z'' \<and>
   body_runs 701 1 \<and>
   hd (snd (state_after 701 (Suc 1))) \<in> set indexToChar \<and>
   tl (snd (state_after 701 (Suc 1))) = snd (state_after 701 1)"
proof -
  have n: "(0::int) \<le> 701" by simp
  note t = getQuerySymbol_letters [OF n]
  from t have ne: "getQuerySymbol 701 \<noteq> []"
    by (rule conjunct1)
  then have "hd (getQuerySymbol 701) \<in> set (getQuerySymbol 701)"
    by (rule hd_in_set)
  with t have "CHR ''a'' \<le> hd (getQuerySymbol 701) \<and> hd (getQuerySymbol 701) \<le> CHR ''z''"
    by blast
  moreover have runs: "body_runs 701 1" by code_simp
  with t obtain c where "c \<in> set indexToChar"
    "snd (state_after 701 (Suc 1)) = c # snd (state_after 701 1)"
    by blast
  then have "hd (snd (state_after 701 (Suc 1))) \<in> set indexToChar \<and>
    tl (snd (state_after 701 (Suc 1))) = snd (state_after 701 1)"
    by simp
  ultimately show ?thesis
    using n ne runs by blast
qed

subsection \<open>Negative indices\<close>

lemma getQuerySymbol_one_iteration:
  assumes "index < 0"
  shows "fst (state_after index (Suc 0)) < 0" "\<not> body_runs index (Suc 0)"
    "getQuerySymbol index = snd (state_after index (Suc 0))"
proof -
  from assms have "js_minus (js_floor_div index 26) 1 < 0"
    by (rule js_next_neg)
  then show neg: "fst (state_after index (Suc 0)) < 0"
    by (simp add: state_after_def fst_loop_body)
  then show "\<not> body_runs index (Suc 0)"
    by (simp add: loop_cond_def)
  from neg have "\<not> loop_cond (loop_body (index, []))"
    by (simp add: state_after_def loop_cond_def)
  then show "getQuerySymbol index = snd (state_after index (Suc 0))"
    unfolding getQuerySymbol_def state_after_def
    by (subst do_while.simps) (simp add: Let_def)
qed

lemma snd_state_after_1:
  "snd (state_after index (Suc 0)) = js_plus (js_string_index indexToChar (js_rem index 26)) []"
  by (simp add: state_after_def loop_body_eq)

lemma getQuerySymbol_negative:
  assumes "index < 0"
  shows "getQuerySymbol index = (if index mod 26 = 0 then ''a'' else ''undefined'')"
proof -
  from assms have ret:
    "getQuerySymbol index = js_plus (js_string_index indexToChar (js_rem index 26)) []"
    by (simp only: getQuerySymbol_one_iteration snd_state_after_1)
  show ?thesis
  proof (cases "index mod 26 = 0")
    case True
    then have "(- index) mod 26 = 0"
      by (simp add: zmod_zminus1_eq_if)
    with assms have "js_rem index 26 = 0"
      by (simp add: js_rem_def)
    with True show ?thesis
      by (simp add: ret js_string_index_def js_plus_def indexToChar_def)
  next
    case False
    then have "0 < (- index) mod 26"
      by (simp add: zmod_zminus1_eq_if)
    with assms have "js_rem index 26 < 0"
      by (simp add: js_rem_def)
    with False show ?thesis
      by (simp add: ret js_string_index_def js_plus_def)
  qed
qed





text \<open>
  Claim C6 says that \<^verbatim>\<open>getQuerySymbol\<close> rejects a negative index by signalling an error
  instead of returning a string. The function has no such check: for the index \<open>-1\<close> it
  returns the string \<^verbatim>\<open>undefined\<close>.
\<close>

theorem getQuerySymbol_negative_no_error: "(-1::int) < 0 \<and> getQuerySymbol (-1) = ''undefined''"
  by code_simp

text \<open>
  Claim C6, as amended. \<^verbatim>\<open>getQuerySymbol\<close> does not validate its argument: for every
  negative integer \<open>index\<close> it signals no error and returns a string, which is the text
  \<^verbatim>\<open>undefined\<close> when \<open>index\<close> is not a multiple of 26, and \<^verbatim>\<open>a\<close> when it is.
\<close>

theorem getQuerySymbol_negative_value:
  "index < 0 \<Longrightarrow> getQuerySymbol index = (if index mod 26 = 0 then ''a'' else ''undefined'')"
  by (rule getQuerySymbol_negative)

theorem getQuerySymbol_negative_value_witness:
  "(-26::int) < 0 \<and> getQuerySymbol (-26) = ''a'' \<and> (-27::int) < 0 \<and> getQuerySymbol (-27) = ''undefined''"
  using getQuerySymbol_negative_value [of "-26"] getQuerySymbol_negative_value [of "-27"] by simp

subsection \<open>The component\<close>

text \<open>
  Claim C7. The component \<^verbatim>\<open>QuerySymbol\<close> renders nothing exactly when \<open>queryId\<close> is
  negative. For every \<open>queryId \<ge> 0\<close> it renders one element whose text is
  \<^verbatim>\<open>getQuerySymbol(queryId)\<close>, and which of the two components \<^verbatim>\<open>Symbol\<close> and
  \<^verbatim>\<open>DeprecatedSymbol\<close> it is depends only on the value of \<^verbatim>\<open>hasMetricsNewInputs\<close> for
  the organization.
\<close>

theorem QuerySymbol_renders:
  "(QuerySymbol hasMetricsNewInputs organization queryId props ref = None \<longleftrightarrow> queryId < 0) \<and>
   (0 \<le> queryId \<longrightarrow>
      QuerySymbol hasMetricsNewInputs organization queryId props ref =
        Some (Element (if hasMetricsNewInputs organization then Symbol else DeprecatedSymbol)
                ref props (getQuerySymbol queryId)))"
  by (simp add: QuerySymbol_def)

theorem QuerySymbol_renders_witness:
  "(0::int) \<le> 26 \<and>
   QuerySymbol (\<lambda>org. org = ''new'') ''new'' 26 () () = Some (Element Symbol () () ''aa'') \<and>
   QuerySymbol (\<lambda>org. org = ''new'') ''old'' 26 () () = Some (Element DeprecatedSymbol () () ''aa'') \<and>
   QuerySymbol (\<lambda>org. org = ''new'') ''new'' (-1) () () = None"
proof -
  have "getQuerySymbol 26 = ''aa''" by code_simp
  then show ?thesis
    using QuerySymbol_renders [of "\<lambda>org. org = ''new''" "''new''" 26 "()" "()"]
      QuerySymbol_renders [of "\<lambda>org. org = ''new''" "''old''" 26 "()" "()"]
      QuerySymbol_renders [of "\<lambda>org. org = ''new''" "''new''" "-1" "()" "()"]
    by simp
qed

subsection \<open>The labels of the reference algorithm\<close>

lemma generateLabel_digit: "0 \<le> n \<Longrightarrow> n < 26 \<Longrightarrow> generateLabel n = [letter n]"
  by (simp add: generateLabel_small)

lemma generateLabel_label: "0 \<le> n \<Longrightarrow> is_label (generateLabel n)"
proof (induction n rule: index_induct)
  case (small n)
  then show ?case
    by (simp add: generateLabel_digit is_label_letter)
next
  case (step n)
  then show ?case
    by (simp add: generateLabel_step is_label_snoc)
qed

subsection \<open>The length of a label\<close>

lemma threshold_0: "threshold 0 = 0"
  by (simp add: threshold_def)

lemma threshold_Suc_sum: "threshold (Suc k) = threshold k + 26 ^ Suc k"
  by (simp add: threshold_def)

lemma threshold_closed: "25 * threshold k + 26 = 26 ^ Suc k"
  by (induction k) (simp_all add: threshold_0 threshold_Suc_sum)

lemma threshold_Suc: "threshold (Suc k) = 26 * (threshold k + 1)"
  using threshold_closed [of k] by (simp add: threshold_Suc_sum)

lemma threshold_nonneg: "0 \<le> threshold k"
  by (simp add: threshold_def sum_nonneg)

lemma threshold_less_Suc: "threshold k < threshold (Suc k)"
  by (simp add: threshold_Suc_sum)

lemma threshold_mono: "j \<le> k \<Longrightarrow> threshold j \<le> threshold k"
  by (rule lift_Suc_mono_le [of threshold]) (simp_all add: threshold_Suc_sum)

lemma div_26_less_iff: "((n::int) div 26 - 1 < t) \<longleftrightarrow> n < 26 * (t + 1)"
proof -
  define q r where "q = n div 26" and "r = n mod 26"
  have "n = 26 * q + r" "0 \<le> r" "r < 26"
    by (simp_all add: q_def r_def)
  then have "(q - 1 < t) \<longleftrightarrow> n < 26 * (t + 1)"
    by auto
  then show ?thesis
    by (simp only: q_def)
qed

lemma length_generateLabel_le:
  "0 \<le> n \<Longrightarrow> length (generateLabel n) \<le> k \<longleftrightarrow> n < threshold k"
proof (induction n arbitrary: k rule: index_induct)
  case (small n)
  show ?case
  proof (cases k)
    case 0
    with small show ?thesis
      by (simp add: generateLabel_digit threshold_0)
  next
    case (Suc k')
    have "26 \<le> threshold (Suc k')"
      using threshold_nonneg [of k'] by (simp add: threshold_Suc)
    with small Suc show ?thesis
      by (simp add: generateLabel_digit)
  qed
next
  case (step n)
  show ?case
  proof (cases k)
    case 0
    with step.hyps show ?thesis
      by (simp add: generateLabel_step threshold_0)
  next
    case (Suc k')
    have "length (generateLabel n) \<le> Suc k' \<longleftrightarrow> length (generateLabel (n div 26 - 1)) \<le> k'"
      using step.hyps by (simp add: generateLabel_step)
    also have "\<dots> \<longleftrightarrow> n div 26 - 1 < threshold k'"
      by (rule step.IH)
    also have "\<dots> \<longleftrightarrow> n < threshold (Suc k')"
      by (simp only: div_26_less_iff threshold_Suc)
    finally show ?thesis
      by (simp only: Suc)
  qed
qed

lemma length_generateLabel_mono:
  assumes "0 \<le> m" "m \<le> n"
  shows "length (generateLabel m) \<le> length (generateLabel n)"
proof -
  from assms have "0 \<le> n" by simp
  then have "n < threshold (length (generateLabel n))"
    using length_generateLabel_le [of n "length (generateLabel n)"] by simp
  with assms have "m < threshold (length (generateLabel n))"
    by simp
  with assms(1) show ?thesis
    by (simp add: length_generateLabel_le)
qed

lemma length_generateLabel_grows_iff:
  assumes "1 \<le> n"
  shows "length (generateLabel (n - 1)) < length (generateLabel n) \<longleftrightarrow>
    (\<exists>k\<ge>1. n = threshold k)"
proof
  assume less: "length (generateLabel (n - 1)) < length (generateLabel n)"
  let ?k = "length (generateLabel (n - 1))"
  from assms have "n - 1 < threshold ?k"
    using length_generateLabel_le [of "n - 1" ?k] by simp
  moreover from assms less have "\<not> n < threshold ?k"
    using length_generateLabel_le [of n ?k] by simp
  ultimately have "n = threshold ?k"
    by simp
  moreover have "1 \<le> ?k"
  proof (rule ccontr)
    assume "\<not> 1 \<le> ?k"
    then have "?k = 0" by arith
    then have "threshold ?k = 0" by (simp only: threshold_0)
    with \<open>n = threshold ?k\<close> assms show False
      by linarith
  qed
  ultimately show "\<exists>k\<ge>1. n = threshold k"
    by blast
next
  assume "\<exists>k\<ge>1. n = threshold k"
  then obtain k where k: "1 \<le> k" "n = threshold k"
    by blast
  from assms k(2) have "length (generateLabel (n - 1)) \<le> k"
    using length_generateLabel_le [of "n - 1" k] by simp
  moreover from assms k(2) have "\<not> length (generateLabel n) \<le> k"
    using length_generateLabel_le [of n k] by simp
  ultimately show "length (generateLabel (n - 1)) < length (generateLabel n)"
    by simp
qed

lemma threshold_1: "threshold 1 = 26"
  by (simp add: threshold_def)

lemma threshold_2: "threshold 2 = 702"
  by (simp add: threshold_def numeral_2_eq_2)

lemma not_threshold_27: "\<not> (\<exists>k\<ge>1. (27::int) = threshold k)"
proof
  assume "\<exists>k\<ge>1. (27::int) = threshold k"
  then obtain k where k: "1 \<le> k" "27 = threshold k"
    by blast
  show False
  proof (cases "k = 1")
    case True
    with k(2) have "27 = threshold 1" by (simp only:)
    with threshold_1 show False by linarith
  next
    case False
    with k(1) have "2 \<le> k" by simp
    then have "threshold 2 \<le> threshold k" by (rule threshold_mono)
    with k(2) show False by (simp add: threshold_2)
  qed
qed

text \<open>
  Claim C5 says that the length of the label grows exactly at the thresholds. The
  binary64 number \<open>99246114928149456\<close> lies between the thresholds \<open>26 + ... + 26\<^sup>1\<^sup>1\<close> and
  \<open>26 + ... + 26\<^sup>1\<^sup>2\<close>, as \<open>2\<^sup>5\<^sup>3 - 1\<close> does, and no threshold lies between the two numbers;
  the label of \<open>2\<^sup>5\<^sup>3 - 1\<close> has 12 letters, but the label of \<open>99246114928149456\<close> has 13.
\<close>

theorem getQuerySymbol_length_large:
  "threshold 11 < 2 ^ 53 - 1 \<and> (2::int) ^ 53 - 1 < 99246114928149456 \<and>
   99246114928149456 < threshold 12 \<and>
   js_minus 99246114928149456 0 = 99246114928149456 \<and>
   length (getQuerySymbol (2 ^ 53 - 1)) = 12 \<and>
   length (getQuerySymbol 99246114928149456) = 13"
  by code_simp

text \<open>
  Claim C5, as amended. Over the indices \<open>0 \<le> n < 2\<^sup>5\<^sup>3\<close> the length of the label does not
  decrease as \<open>n\<close> grows. It grows exactly at the thresholds \<open>26\<close>, \<open>26 + 26 * 26 = 702\<close>,
  and in general \<open>26 + 26\<^sup>2 + ... + 26\<^sup>k\<close>: the label of \<open>n\<close> with \<open>1 \<le> n < 2\<^sup>5\<^sup>3\<close> is longer
  than the label of \<open>n - 1\<close> if and only if \<open>n\<close> is such a sum, and at every other index the
  two lengths are equal.
\<close>

theorem getQuerySymbol_length:
  "(0 \<le> m \<and> m \<le> n \<and> n < 2 ^ 53 \<longrightarrow>
      length (getQuerySymbol m) \<le> length (getQuerySymbol n)) \<and>
   (1 \<le> n \<and> n < 2 ^ 53 \<longrightarrow>
      (length (getQuerySymbol (n - 1)) < length (getQuerySymbol n) \<longleftrightarrow>
         (\<exists>k\<ge>1. n = threshold k)) \<and>
      (\<not> (\<exists>k\<ge>1. n = threshold k) \<longrightarrow>
         length (getQuerySymbol n) = length (getQuerySymbol (n - 1))))"
proof (intro conjI impI)
  assume a: "0 \<le> m \<and> m \<le> n \<and> n < 2 ^ 53"
  then have "getQuerySymbol m = generateLabel m" "getQuerySymbol n = generateLabel n"
    by (simp_all add: getQuerySymbol_exact)
  with a show "length (getQuerySymbol m) \<le> length (getQuerySymbol n)"
    by (simp add: length_generateLabel_mono)
next
  assume a: "1 \<le> n \<and> n < 2 ^ 53"
  then have eq: "getQuerySymbol (n - 1) = generateLabel (n - 1)"
    "getQuerySymbol n = generateLabel n"
    by (simp_all add: getQuerySymbol_exact)
  from a show iff: "length (getQuerySymbol (n - 1)) < length (getQuerySymbol n) \<longleftrightarrow>
      (\<exists>k\<ge>1. n = threshold k)"
    unfolding eq by (intro length_generateLabel_grows_iff) simp
  assume "\<not> (\<exists>k\<ge>1. n = threshold k)"
  with iff have "\<not> length (getQuerySymbol (n - 1)) < length (getQuerySymbol n)"
    by blast
  moreover from a have "length (getQuerySymbol (n - 1)) \<le> length (getQuerySymbol n)"
    unfolding eq by (intro length_generateLabel_mono) simp_all
  ultimately show "length (getQuerySymbol n) = length (getQuerySymbol (n - 1))"
    by simp
qed

theorem getQuerySymbol_length_witness:
  "(0::int) \<le> 25 \<and> (25::int) \<le> 26 \<and> (26::int) < 2 ^ 53 \<and>
   length (getQuerySymbol 25) \<le> length (getQuerySymbol 26) \<and>
   (26::int) = threshold 1 \<and> length (getQuerySymbol (26 - 1)) < length (getQuerySymbol 26) \<and>
   (702::int) = threshold 2 \<and> length (getQuerySymbol (702 - 1)) < length (getQuerySymbol 702) \<and>
   length (getQuerySymbol 27) = length (getQuerySymbol (27 - 1))"
proof -
  have "\<exists>k\<ge>1. (26::int) = threshold k"
    using threshold_1 by (intro exI [of _ 1]) simp
  moreover have "\<exists>k\<ge>1. (702::int) = threshold k"
    using threshold_2 by (intro exI [of _ 2]) simp
  moreover have "(0::int) \<le> 25 \<and> (25::int) \<le> 26 \<and> (26::int) < 2 ^ 53"
    "(1::int) \<le> 26 \<and> (26::int) < 2 ^ 53" "(1::int) \<le> 702 \<and> (702::int) < 2 ^ 53"
    "(1::int) \<le> 27 \<and> (27::int) < 2 ^ 53"
    by simp_all
  moreover note not_threshold_27 threshold_1 [symmetric] threshold_2 [symmetric]
  ultimately show ?thesis
    using getQuerySymbol_length [of 25 26] getQuerySymbol_length [of 0 702]
      getQuerySymbol_length [of 0 27]
    by blast
qed

subsection \<open>The enumeration of the labels\<close>

lemma lexordp_same_length_append:
  fixes xs ys us vs :: string
  assumes "ord_class.lexordp xs ys" "length xs = length ys"
  shows "ord_class.lexordp (xs @ us) (ys @ vs)"
proof -
  from assms(1) consider
    (prefix) x ws where "ys = xs @ x # ws"
  | (diff) ps a b ws zs where "a < b" "xs = ps @ a # ws" "ys = ps @ b # zs"
    by (auto simp: lexordp_iff)
  then show ?thesis
  proof cases
    case prefix
    with assms(2) show ?thesis by simp
  next
    case diff
    then have "ord_class.lexordp (ps @ a # (ws @ us)) (ps @ b # (zs @ vs))"
      by (intro lexordp_append_left_rightI)
    with diff show ?thesis by simp
  qed
qed

lemma column_less_snoc:
  "column_less s t \<Longrightarrow> column_less (s @ [a]) (t @ [b])"
  by (auto simp: column_less_def lexordp_same_length_append)

lemma column_less_last:
  "a < b \<Longrightarrow> column_less (s @ [a]) (s @ [b])"
  by (simp add: column_less_def lexordp_append_leftI)

lemma column_less_irrefl: "\<not> column_less s s"
  by (simp add: column_less_def lexordp_irreflexive')

lemma div_26_mod_less:
  fixes m n :: int
  assumes "m < n" "m div 26 - 1 = n div 26 - 1"
  shows "m mod 26 < n mod 26"
proof -
  have "m = 26 * (m div 26) + m mod 26" "n = 26 * (n div 26) + n mod 26"
    by simp_all
  with assms show ?thesis
    by linarith
qed

lemma column_less_asym: "column_less s t \<Longrightarrow> \<not> column_less t s"
  by (auto simp: column_less_def dest: lexordp_antisym)

lemma generateLabel_column_less:
  "0 \<le> n \<Longrightarrow> 0 \<le> m \<Longrightarrow> m < n \<Longrightarrow> column_less (generateLabel m) (generateLabel n)"
proof (induction n arbitrary: m rule: index_induct)
  case (small n)
  then have "letter m < letter n"
    by (simp add: letter_mono)
  with small show ?case
    by (simp add: generateLabel_digit column_less_def)
next
  case (step n)
  let ?n' = "n div 26 - 1"
  from step.hyps have n': "0 \<le> ?n'" by linarith
  then have ne: "generateLabel ?n' \<noteq> []"
    using generateLabel_label [of ?n'] by (simp add: is_label_def)
  show ?case
  proof (cases "m < 26")
    case True
    with step.prems ne show ?thesis
      by (cases "generateLabel ?n'")
        (simp_all add: generateLabel_digit generateLabel_step [OF step.hyps] column_less_def)
  next
    case False
    then have m: "26 \<le> m" by simp
    let ?m' = "m div 26 - 1"
    from m have m': "0 \<le> ?m'" by linarith
    from step.prems have le: "?m' \<le> ?n'"
      by (simp add: zdiv_mono1)
    show ?thesis
    proof (cases "?m' < ?n'")
      case True
      with m' have "column_less (generateLabel ?m') (generateLabel ?n')"
        by (rule step.IH)
      then show ?thesis
        by (simp only: generateLabel_step [OF m] generateLabel_step [OF step.hyps]
            column_less_snoc)
    next
      case False
      with le have eq: "?m' = ?n'" by simp
      with step.prems have "m mod 26 < n mod 26"
        by (simp only: div_26_mod_less)
      then have "letter (m mod 26) < letter (n mod 26)"
        by (simp add: letter_mono)
      then show ?thesis
        by (simp only: generateLabel_step [OF m] generateLabel_step [OF step.hyps] eq
            column_less_last)
    qed
  qed
qed

lemma letter_of_char:
  assumes "CHR ''a'' \<le> c" "c \<le> CHR ''z''"
  shows "\<exists>d. 0 \<le> d \<and> d < 26 \<and> c = letter d"
proof -
  from assms have "97 \<le> (of_char c :: nat)" "(of_char c :: nat) \<le> 122"
    by (simp_all add: less_eq_char_def)
  moreover have "(of_char c :: int) = int (of_char c)"
    by (simp only: of_nat_of_char)
  ultimately have r: "97 \<le> (of_char c :: int)" "(of_char c :: int) \<le> 122"
    by linarith+
  have "(of_char CHR ''a'' :: int) = 97"
    by simp
  then have "of_char CHR ''a'' + (of_char c - 97) = (of_char c :: int)"
    by linarith
  then have "c = letter (of_char c - 97)"
    by (simp only: letter_def char_of_char)
  with r show ?thesis
    by (intro exI [of _ "of_char c - 97"]) simp
qed

lemma generateLabel_onto: "is_label s \<Longrightarrow> \<exists>n\<ge>0. generateLabel n = s"
proof (induction s rule: rev_induct)
  case Nil
  then show ?case by (simp add: is_label_def)
next
  case (snoc c s)
  then obtain d where d: "0 \<le> d" "d < 26" "c = letter d"
    using letter_of_char [of c] by (auto simp: is_label_def)
  show ?case
  proof (cases "s = []")
    case True
    with d have "generateLabel d = s @ [c]"
      by (simp add: generateLabel_digit)
    with d(1) show ?thesis by blast
  next
    case False
    with snoc.prems have "is_label s"
      by (simp add: is_label_def)
    then obtain n where n: "0 \<le> n" "generateLabel n = s"
      using snoc.IH by blast
    let ?m = "26 * (n + 1) + d"
    from d have dm: "?m div 26 - 1 = n" "?m mod 26 = d"
      by (simp_all only: div_mod_26_digit)
    from n(1) d(1) have "26 \<le> ?m" by simp
    then have "generateLabel ?m = generateLabel (?m div 26 - 1) @ [letter (?m mod 26)]"
      by (rule generateLabel_step)
    with n(2) d(3) have "generateLabel ?m = s @ [c]"
      by (simp only: dm)
    moreover from n(1) d(1) have "0 \<le> ?m" by simp
    ultimately show ?thesis by blast
  qed
qed

lemma getQuerySymbol_column_less:
  assumes "0 \<le> m" "m < n" "n < 2 ^ 53"
  shows "column_less (getQuerySymbol m) (getQuerySymbol n)"
proof -
  from assms have "getQuerySymbol m = generateLabel m" "getQuerySymbol n = generateLabel n"
    by (simp_all add: getQuerySymbol_exact)
  with assms show ?thesis
    by (simp add: generateLabel_column_less)
qed

text \<open>
  Claim C2 says that \<^verbatim>\<open>getQuerySymbol\<close> enumerates the labels in the order of
  spreadsheet columns, a smaller index having the earlier label. The binary64 numbers
  \<open>29273397577908248\<close> and \<open>29273397577908252\<close> have the labels \<open>gyinbkqdgxey\<close> and
  \<open>gyinbkqdgxec\<close>: the smaller index has the later label.
\<close>

theorem getQuerySymbol_order_large:
  "(0::int) \<le> 29273397577908248 \<and> (29273397577908248::int) < 29273397577908252 \<and>
   js_minus 29273397577908248 0 = 29273397577908248 \<and>
   js_minus 29273397577908252 0 = 29273397577908252 \<and>
   getQuerySymbol 29273397577908248 = ''gyinbkqdgxey'' \<and>
   getQuerySymbol 29273397577908252 = ''gyinbkqdgxec'' \<and>
   \<not> column_less (getQuerySymbol 29273397577908248) (getQuerySymbol 29273397577908252) \<and>
   column_less (getQuerySymbol 29273397577908252) (getQuerySymbol 29273397577908248)"
  by code_simp

text \<open>
  Claim C2, as amended. On the integers \<open>0 \<le> n < 2\<^sup>5\<^sup>3\<close> the function \<^verbatim>\<open>getQuerySymbol\<close> is
  a bijection onto the non-empty strings of the 26 lowercase Latin letters that do not
  come after the label of \<open>2\<^sup>5\<^sup>3 - 1\<close> in the order of spreadsheet columns (a, b, ..., z, aa,
  ab, ..., az, ba, ...): different indices have different labels, every such string is
  the label of some index, among them every string of at most 11 letters, and a smaller
  index has the label that is earlier in that order.
\<close>

theorem getQuerySymbol_bijection:
  "inj_on getQuerySymbol {0..<2 ^ 53} \<and>
   getQuerySymbol ` {0..<2 ^ 53} =
     {s. s \<noteq> [] \<and> (\<forall>c\<in>set s. CHR ''a'' \<le> c \<and> c \<le> CHR ''z'') \<and>
         \<not> column_less (getQuerySymbol (2 ^ 53 - 1)) s} \<and>
   (\<forall>s. s \<noteq> [] \<and> (\<forall>c\<in>set s. CHR ''a'' \<le> c \<and> c \<le> CHR ''z'') \<and> length s \<le> 11 \<longrightarrow>
      s \<in> getQuerySymbol ` {0..<2 ^ 53}) \<and>
   (\<forall>m n. 0 \<le> m \<and> m < n \<and> n < 2 ^ 53 \<longrightarrow>
      column_less (getQuerySymbol m) (getQuerySymbol n))"
proof (intro conjI allI impI)
  show "inj_on getQuerySymbol {0..<2 ^ 53}"
  proof (rule inj_onI)
    fix m n :: int
    assume mn: "m \<in> {0..<2 ^ 53}" "n \<in> {0..<2 ^ 53}"
      and eq: "getQuerySymbol m = getQuerySymbol n"
    show "m = n"
    proof (rule ccontr)
      assume "m \<noteq> n"
      then consider "m < n" | "n < m" by linarith
      then have "column_less (getQuerySymbol m) (getQuerySymbol n) \<or>
        column_less (getQuerySymbol n) (getQuerySymbol m)"
        using mn by cases (simp_all add: getQuerySymbol_column_less)
      with eq show False
        by (simp add: column_less_irrefl)
    qed
  qed
next
  have top: "(0::int) \<le> 2 ^ 53 - 1" "(2::int) ^ 53 - 1 < 2 ^ 53"
    by simp_all
  show "getQuerySymbol ` {0..<2 ^ 53} =
     {s. s \<noteq> [] \<and> (\<forall>c\<in>set s. CHR ''a'' \<le> c \<and> c \<le> CHR ''z'') \<and>
         \<not> column_less (getQuerySymbol (2 ^ 53 - 1)) s}"
  proof (intro equalityI subsetI)
    fix s
    assume "s \<in> getQuerySymbol ` {0..<2 ^ 53}"
    then obtain n where n: "0 \<le> n" "n < 2 ^ 53" "s = getQuerySymbol n"
      by auto
    then have "is_label s"
      by (simp add: getQuerySymbol_label)
    moreover have "\<not> column_less (getQuerySymbol (2 ^ 53 - 1)) s"
    proof (cases "n = 2 ^ 53 - 1")
      case True
      with n(3) show ?thesis by (simp only: column_less_irrefl not_False_eq_True)
    next
      case False
      with n(2) have lt: "n < 2 ^ 53 - 1" by simp
      from n(1) lt top(2) have "column_less (getQuerySymbol n) (getQuerySymbol (2 ^ 53 - 1))"
        by (rule getQuerySymbol_column_less)
      then show ?thesis
        unfolding n(3) by (rule column_less_asym)
    qed
    ultimately show "s \<in> {s. s \<noteq> [] \<and> (\<forall>c\<in>set s. CHR ''a'' \<le> c \<and> c \<le> CHR ''z'') \<and>
         \<not> column_less (getQuerySymbol (2 ^ 53 - 1)) s}"
      by (simp add: is_label_def list_all_iff)
  next
    fix s
    assume "s \<in> {s. s \<noteq> [] \<and> (\<forall>c\<in>set s. CHR ''a'' \<le> c \<and> c \<le> CHR ''z'') \<and>
         \<not> column_less (getQuerySymbol (2 ^ 53 - 1)) s}"
    then have s: "is_label s" "\<not> column_less (getQuerySymbol (2 ^ 53 - 1)) s"
      by (simp_all add: is_label_def list_all_iff)
    then obtain n where n: "0 \<le> n" "generateLabel n = s"
      using generateLabel_onto by blast
    have "n < 2 ^ 53"
    proof (rule ccontr)
      assume "\<not> n < 2 ^ 53"
      then have "2 ^ 53 - 1 < n" by simp
      with top(1) have "column_less (generateLabel (2 ^ 53 - 1)) (generateLabel n)"
        by (intro generateLabel_column_less) simp_all
      with s(2) n(2) top show False
        by (simp add: getQuerySymbol_exact)
    qed
    with n have "getQuerySymbol n = s"
      by (simp add: getQuerySymbol_exact)
    with n(1) \<open>n < 2 ^ 53\<close> show "s \<in> getQuerySymbol ` {0..<2 ^ 53}"
      by auto
  qed
next
  fix s
  assume "s \<noteq> [] \<and> (\<forall>c\<in>set s. CHR ''a'' \<le> c \<and> c \<le> CHR ''z'') \<and> length s \<le> 11"
  then have s: "is_label s" "length s \<le> 11"
    by (simp_all add: is_label_def list_all_iff)
  then obtain n where n: "0 \<le> n" "generateLabel n = s"
    using generateLabel_onto by blast
  with s(2) have "n < threshold 11"
    by (simp flip: length_generateLabel_le)
  also have "threshold 11 < 2 ^ 53"
    by (simp add: threshold_def numeral_eq_Suc)
  finally have "n < 2 ^ 53" .
  with n have "getQuerySymbol n = s"
    by (simp add: getQuerySymbol_exact)
  with n(1) \<open>n < 2 ^ 53\<close> show "s \<in> getQuerySymbol ` {0..<2 ^ 53}"
    by auto
next
  fix m n :: int
  assume "0 \<le> m \<and> m < n \<and> n < 2 ^ 53"
  then show "column_less (getQuerySymbol m) (getQuerySymbol n)"
    by (simp add: getQuerySymbol_column_less)
qed

theorem getQuerySymbol_bijection_witness:
  "(25::int) \<in> {0..<2 ^ 53} \<and> (26::int) \<in> {0..<2 ^ 53} \<and>
   getQuerySymbol 25 \<noteq> getQuerySymbol 26 \<and>
   ''undefined'' \<noteq> [] \<and> length ''undefined'' \<le> 11 \<and>
   (\<exists>n\<ge>0. n < 2 ^ 53 \<and> getQuerySymbol n = ''undefined'') \<and>
   (0::int) \<le> 25 \<and> (25::int) < 26 \<and> (26::int) < 2 ^ 53 \<and>
   column_less (getQuerySymbol 25) (getQuerySymbol 26)"
proof -
  note b = getQuerySymbol_bijection
  have in_range: "(25::int) \<in> {0..<2 ^ 53}" "(26::int) \<in> {0..<2 ^ 53}"
    by simp_all
  from b have "inj_on getQuerySymbol {0..<2 ^ 53}" by (rule conjunct1)
  with in_range have "getQuerySymbol 25 \<noteq> getQuerySymbol 26"
    by (auto dest: inj_onD)
  moreover have "''undefined'' \<noteq> [] \<and> (\<forall>c\<in>set ''undefined''. CHR ''a'' \<le> c \<and> c \<le> CHR ''z'') \<and>
    length ''undefined'' \<le> 11"
    by simp
  with b have "''undefined'' \<in> getQuerySymbol ` {0..<2 ^ 53}"
    by blast
  then have "\<exists>n\<ge>0. n < 2 ^ 53 \<and> getQuerySymbol n = ''undefined''"
    by auto
  moreover have "(0::int) \<le> 25 \<and> (25::int) < 26 \<and> (26::int) < 2 ^ 53"
    by simp
  with b have "column_less (getQuerySymbol 25) (getQuerySymbol 26)"
    by blast
  ultimately show ?thesis
    using in_range by simp
qed

end
